theory Spec2Isabelle
  imports Main "HOL-Library.Word"
begin

section \<open>The file Unicode normalizer (src/main.py)\<close>

text \<open>
  The program reads a file as UTF-8 text, applies \<open>unicodedata.normalize\<close> and writes the
  result as UTF-8 text. The embedding keeps the two functions of the source,
  \<open>normalize_unicode\<close> and \<open>main\<close>, with the exceptions as values, the file system, the
  logging calls and the file-system calls as explicit state. The library routines the source
  calls are modelled beside it: the UTF-8 codec and the newline handling of text-mode
  \<open>open\<close>, the \<open>choices\<close> check of \<open>argparse\<close>. The normalization routine itself,
  \<open>unicodedata.normalize\<close>, is a parameter of the model.
\<close>

subsection \<open>Text and bytes\<close>

type_synonym byte = "8 word"

text \<open>A Python \<open>str\<close> is a sequence of code points.\<close>

type_synonym codepoint = nat
type_synonym str = "codepoint list"

definition cr :: codepoint where "cr = 0x0D"
definition lf :: codepoint where "lf = 0x0A"

text \<open>A Unicode scalar value: a code point below U+110000 that is not a surrogate.\<close>

definition scalar :: "codepoint \<Rightarrow> bool" where
  "scalar c = (c < 0x110000 \<and> \<not> (0xD800 \<le> c \<and> c \<le> 0xDFFF))"

definition continuation :: "byte \<Rightarrow> bool" where
  "continuation b = (0x80 \<le> unat b \<and> unat b \<le> 0xBF)"

text \<open>
  The strict UTF-8 decoder of \<open>open(..., encoding='utf-8')\<close>: \<open>None\<close> is
  \<open>UnicodeDecodeError\<close>. Overlong forms, surrogates and values above U+10FFFF are rejected.
\<close>

fun utf8_decode :: "byte list \<Rightarrow> str option" where
  "utf8_decode [] = Some []"
| "utf8_decode (b # bs) =
     (if unat b < 0x80 then map_option ((#) (unat b)) (utf8_decode bs)
      else if 0xC2 \<le> unat b \<and> unat b \<le> 0xDF then
        (case bs of
           b1 # r \<Rightarrow>
             if continuation b1
             then map_option ((#) ((unat b - 0xC0) * 64 + (unat b1 - 0x80))) (utf8_decode r)
             else None
         | _ \<Rightarrow> None)
      else if 0xE0 \<le> unat b \<and> unat b \<le> 0xEF then
        (case bs of
           b1 # b2 # r \<Rightarrow>
             (let c = (unat b - 0xE0) * 4096 + (unat b1 - 0x80) * 64 + (unat b2 - 0x80)
              in if continuation b1 \<and> continuation b2 \<and> 0x800 \<le> c \<and> scalar c
                 then map_option ((#) c) (utf8_decode r)
                 else None)
         | _ \<Rightarrow> None)
      else if 0xF0 \<le> unat b \<and> unat b \<le> 0xF4 then
        (case bs of
           b1 # b2 # b3 # r \<Rightarrow>
             (let c = (unat b - 0xF0) * 262144 + (unat b1 - 0x80) * 4096
                      + (unat b2 - 0x80) * 64 + (unat b3 - 0x80)
              in if continuation b1 \<and> continuation b2 \<and> continuation b3
                    \<and> 0x10000 \<le> c \<and> scalar c
                 then map_option ((#) c) (utf8_decode r)
                 else None)
         | _ \<Rightarrow> None)
      else None)"

text \<open>The bytes of one scalar value.\<close>

definition utf8_encode_char :: "codepoint \<Rightarrow> byte list" where
  "utf8_encode_char c =
     (if c < 0x80 then [of_nat c]
      else if c < 0x800 then [of_nat (0xC0 + c div 64), of_nat (0x80 + c mod 64)]
      else if c < 0x10000 then
        [of_nat (0xE0 + c div 4096), of_nat (0x80 + c div 64 mod 64), of_nat (0x80 + c mod 64)]
      else
        [of_nat (0xF0 + c div 262144), of_nat (0x80 + c div 4096 mod 64),
         of_nat (0x80 + c div 64 mod 64), of_nat (0x80 + c mod 64)])"

text \<open>
  The strict UTF-8 encoder of \<open>open(..., 'w', encoding='utf-8')\<close>: \<open>None\<close> is
  \<open>UnicodeEncodeError\<close>, raised for a string that holds a code point that is not a
  scalar value, before any byte is written.
\<close>

fun utf8_encode :: "str \<Rightarrow> byte list option" where
  "utf8_encode [] = Some []"
| "utf8_encode (c # cs) =
     (if scalar c then map_option ((@) (utf8_encode_char c)) (utf8_encode cs) else None)"

text \<open>
  Text mode with the default \<open>newline=None\<close>. On reading, \<open>\r\n\<close> and a lone \<open>\r\<close>
  both become \<open>\n\<close>. On writing, every \<open>\n\<close> becomes \<open>os.linesep\<close>.
\<close>

fun universal_newlines :: "str \<Rightarrow> str" where
  "universal_newlines [] = []"
| "universal_newlines [a] = (if a = cr then [lf] else [a])"
| "universal_newlines (a # b # r) =
     (if a = cr \<and> b = lf then lf # universal_newlines r
      else if a = cr then lf # universal_newlines (b # r)
      else a # universal_newlines (b # r))"

datatype platform = Posix | Windows

fun os_linesep :: "platform \<Rightarrow> str" where
  "os_linesep Posix = [lf]"
| "os_linesep Windows = [cr, lf]"

definition write_newlines :: "platform \<Rightarrow> str \<Rightarrow> str" where
  "write_newlines pf s = concat (map (\<lambda>c. if c = lf then os_linesep pf else [c]) s)"

subsection \<open>Exceptions, the file system and the log\<close>

type_synonym path = string

text \<open>
  The exceptions that reach a handler of the source. \<open>FileNotFoundError\<close>,
  \<open>IsADirectoryError\<close> and \<open>PermissionError\<close> are subclasses of \<open>OSError\<close>;
  \<open>UnicodeDecodeError\<close> and \<open>UnicodeEncodeError\<close> are subclasses of \<open>ValueError\<close>.
\<close>

datatype exn =
    ValueError string
  | FileNotFoundError path
  | IsADirectoryError path
  | PermissionError path
  | UnicodeDecodeError
  | UnicodeEncodeError

fun is_FileNotFoundError :: "exn \<Rightarrow> bool" where
  "is_FileNotFoundError (FileNotFoundError _) = True"
| "is_FileNotFoundError _ = False"

fun is_OSError :: "exn \<Rightarrow> bool" where
  "is_OSError (FileNotFoundError _) = True"
| "is_OSError (IsADirectoryError _) = True"
| "is_OSError (PermissionError _) = True"
| "is_OSError _ = False"

fun is_UnicodeDecodeError :: "exn \<Rightarrow> bool" where
  "is_UnicodeDecodeError UnicodeDecodeError = True"
| "is_UnicodeDecodeError _ = False"

fun is_ValueError :: "exn \<Rightarrow> bool" where
  "is_ValueError (ValueError _) = True"
| "is_ValueError UnicodeDecodeError = True"
| "is_ValueError UnicodeEncodeError = True"
| "is_ValueError _ = False"

text \<open>
  A file is a regular file with its bytes or a directory. The program names files by path
  strings, and the operating system resolves each string to the file it names: a relative
  and an absolute path, a path through \<open>..\<close> and a link can all name one file. The
  files are therefore kept under canonical names, and \<open>resolve\<close> gives the canonical
  name a path string stands for. Permissions, missing parent directories and device errors
  are outside the model.
\<close>

type_synonym canonical = path

datatype node = RegFile "byte list" | Directory

datatype fs_call = Stat path | OpenRead path | OpenWrite path

datatype level = DEBUG | INFO | WARNING | ERROR | CRITICAL

text \<open>One constructor for each message the source passes to \<open>logging\<close>.\<close>

datatype log_msg =
    Successfully_normalized path path string
  | File_not_found exn
  | OS_error exn
  | Unicode_decode_error exn
  | An_unexpected_error_occurred exn
  | Input_file_is_not_a_valid_file path
  | Main_ValueError exn
  | Main_FileNotFoundError exn
  | Main_OSError exn
  | Main_UnicodeDecodeError exn

text \<open>
  The world a run acts on: the files under their canonical names, the resolution of path
  strings, the calls made to \<open>logging\<close> in order (each with its level), the level set on
  the root logger, and the file-system calls made in order.
\<close>

record world =
  files :: "canonical \<rightharpoonup> node"
  resolve :: "path \<Rightarrow> canonical"
  logged :: "(level \<times> log_msg) list"
  logger_level :: level
  syscalls :: "fs_call list"

text \<open>
  What the source takes from its environment: \<open>unicodedata.normalize\<close> and the platform.
\<close>

record env =
  unicodedata_normalize :: "string \<Rightarrow> str \<Rightarrow> str"
  os_name :: platform

definition logging :: "level \<Rightarrow> log_msg \<Rightarrow> world \<Rightarrow> world" where
  "logging lvl m w = w\<lparr>logged := logged w @ [(lvl, m)]\<rparr>"

definition sys :: "fs_call \<Rightarrow> world \<Rightarrow> world" where
  "sys c w = w\<lparr>syscalls := syscalls w @ [c]\<rparr>"

text \<open>\<open>Path.exists()\<close> and \<open>Path.is_file()\<close>.\<close>

definition path_exists :: "path \<Rightarrow> world \<Rightarrow> bool \<times> world" where
  "path_exists p w = (files w (resolve w p) \<noteq> None, sys (Stat p) w)"

definition path_is_file :: "path \<Rightarrow> world \<Rightarrow> bool \<times> world" where
  "path_is_file p w =
     ((case files w (resolve w p) of Some (RegFile _) \<Rightarrow> True | _ \<Rightarrow> False),
      sys (Stat p) w)"

text \<open>Opening a directory fails with an \<open>OSError\<close> whose subclass depends on the platform.\<close>

fun directory_error :: "platform \<Rightarrow> path \<Rightarrow> exn" where
  "directory_error Posix p = IsADirectoryError p"
| "directory_error Windows p = PermissionError p"

text \<open>\<open>with open(p, 'r', encoding='utf-8') as f: content = f.read()\<close>\<close>

definition read_text :: "env \<Rightarrow> path \<Rightarrow> world \<Rightarrow> (exn + str) \<times> world" where
  "read_text e p w =
     (let w' = sys (OpenRead p) w in
      case files w (resolve w p) of
        None \<Rightarrow> (Inl (FileNotFoundError p), w')
      | Some Directory \<Rightarrow> (Inl (directory_error (os_name e) p), w')
      | Some (RegFile bs) \<Rightarrow>
          (case utf8_decode bs of
             None \<Rightarrow> (Inl UnicodeDecodeError, w')
           | Some s \<Rightarrow> (Inr (universal_newlines s), w')))"

text \<open>
  \<open>with open(p, 'w', encoding='utf-8') as f: f.write(s)\<close>. Opening creates or truncates
  the file the path resolves to; a string that cannot be encoded leaves it empty.
\<close>

definition write_text :: "env \<Rightarrow> path \<Rightarrow> str \<Rightarrow> world \<Rightarrow> (exn + unit) \<times> world" where
  "write_text e p s w =
     (let w' = sys (OpenWrite p) w in
      case files w (resolve w p) of
        Some Directory \<Rightarrow> (Inl (directory_error (os_name e) p), w')
      | _ \<Rightarrow>
          (case utf8_encode (write_newlines (os_name e) s) of
             None \<Rightarrow>
               (Inl UnicodeEncodeError, w'\<lparr>files := (files w')(resolve w p \<mapsto> RegFile [])\<rparr>)
           | Some bs \<Rightarrow>
               (Inr (), w'\<lparr>files := (files w')(resolve w p \<mapsto> RegFile bs)\<rparr>)))"

subsection \<open>normalize_unicode\<close>

text \<open>The handlers of the \<open>try\<close> in \<open>normalize_unicode\<close>, in the order of the source.\<close>

definition normalize_handler :: "exn \<Rightarrow> log_msg" where
  "normalize_handler x =
     (if is_FileNotFoundError x then File_not_found x
      else if is_OSError x then OS_error x
      else if is_UnicodeDecodeError x then Unicode_decode_error x
      else An_unexpected_error_occurred x)"

text \<open>The body of the \<open>try\<close>.\<close>

definition normalize_body :: "env \<Rightarrow> path \<Rightarrow> path \<Rightarrow> string \<Rightarrow> world \<Rightarrow> (exn + unit) \<times> world" where
  "normalize_body e input_file output_file normalization_form w =
     (case read_text e input_file w of
        (Inl x, w1) \<Rightarrow> (Inl x, w1)
      | (Inr content, w1) \<Rightarrow>
          (let normalized_content = unicodedata_normalize e normalization_form content in
           case write_text e output_file normalized_content w1 of
             (Inl x, w2) \<Rightarrow> (Inl x, w2)
           | (Inr u, w2) \<Rightarrow>
               (Inr (),
                logging INFO
                  (Successfully_normalized input_file output_file normalization_form) w2)))"

definition normalize_unicode :: "env \<Rightarrow> path \<Rightarrow> path \<Rightarrow> string \<Rightarrow> world \<Rightarrow> (exn + unit) \<times> world" where
  "normalize_unicode e input_file output_file normalization_form w =
     (if normalization_form \<notin> set [''NFC'', ''NFKD'', ''NFD'', ''NFKC'']
      then (Inl (ValueError normalization_form), w)
      else
        (case path_exists input_file w of
           (ex, w0) \<Rightarrow>
             if \<not> ex then (Inl (FileNotFoundError input_file), w0)
             else
               (case normalize_body e input_file output_file normalization_form w0 of
                  (Inl x, w1) \<Rightarrow> (Inl x, logging ERROR (normalize_handler x) w1)
                | (Inr u, w1) \<Rightarrow> (Inr (), w1))))"

subsection \<open>The command line\<close>

text \<open>
  The command line after it is split into its two positional arguments and two options.
  \<open>parse_args\<close> checks each option against its \<open>choices\<close>; \<open>argparse\<close> reports a value
  outside them and exits with status 2.
\<close>

record cli =
  cli_input_file :: path
  cli_output_file :: path
  cli_form :: "string option"
  cli_log_level :: "string option"

record args =
  input_file :: path
  output_file :: path
  form :: string
  log_level :: string

definition parse_args :: "cli \<Rightarrow> nat + args" where
  "parse_args c =
     (let f = (case cli_form c of None \<Rightarrow> ''NFC'' | Some v \<Rightarrow> v);
          l = (case cli_log_level c of None \<Rightarrow> ''INFO'' | Some v \<Rightarrow> v)
      in if f \<notin> set [''NFC'', ''NFKD'', ''NFD'', ''NFKC''] then Inl 2
         else if l \<notin> set [''DEBUG'', ''INFO'', ''WARNING'', ''ERROR'', ''CRITICAL''] then Inl 2
         else Inr \<lparr>input_file = cli_input_file c, output_file = cli_output_file c,
                   form = f, log_level = l\<rparr>)"

definition level_of_name :: "string \<Rightarrow> level" where
  "level_of_name l =
     (if l = ''DEBUG'' then DEBUG else if l = ''INFO'' then INFO
      else if l = ''WARNING'' then WARNING else if l = ''ERROR'' then ERROR else CRITICAL)"

text \<open>The handlers of the \<open>try\<close> in \<open>main\<close>, in the order of the source.\<close>

definition main_handler :: "exn \<Rightarrow> log_msg" where
  "main_handler x =
     (if is_ValueError x then Main_ValueError x
      else if is_FileNotFoundError x then Main_FileNotFoundError x
      else if is_OSError x then Main_OSError x
      else if is_UnicodeDecodeError x then Main_UnicodeDecodeError x
      else An_unexpected_error_occurred x)"

text \<open>\<open>main\<close> returns the exit status of the process and the world it leaves.\<close>

definition main :: "env \<Rightarrow> cli \<Rightarrow> world \<Rightarrow> nat \<times> world" where
  "main e c w =
     (case parse_args c of
        Inl status \<Rightarrow> (status, w)
      | Inr a \<Rightarrow>
          (let w0 = w\<lparr>logger_level := level_of_name (log_level a)\<rparr> in
           case path_is_file (input_file a) w0 of
             (isf, w1) \<Rightarrow>
               if \<not> isf
               then (1, logging ERROR (Input_file_is_not_a_valid_file (input_file a)) w1)
               else
                 (case normalize_unicode e (input_file a) (output_file a) (form a) w1 of
                    (Inl x, w2) \<Rightarrow> (1, logging ERROR (main_handler x) w2)
                  | (Inr u, w2) \<Rightarrow> (0, w2))))"

subsection \<open>What a successful run writes\<close>

text \<open>
  The bytes a successful run writes for the input bytes \<open>bs\<close>: decoded, with the newlines
  of text mode translated on the way in, normalized, with the newlines translated on the
  way out, encoded.
\<close>

definition written_output :: "env \<Rightarrow> string \<Rightarrow> byte list \<Rightarrow> byte list option" where
  "written_output e f bs =
     (case utf8_decode bs of
        None \<Rightarrow> None
      | Some s \<Rightarrow>
          utf8_encode
            (write_newlines (os_name e) (unicodedata_normalize e f (universal_newlines s))))"

text \<open>
  The specification's account of the output, in its words: decode the input bytes as
  UTF-8, apply the form's normalization, encode as UTF-8.
\<close>

definition specified_output :: "env \<Rightarrow> string \<Rightarrow> byte list \<Rightarrow> byte list option" where
  "specified_output e f bs =
     (case utf8_decode bs of
        None \<Rightarrow> None
      | Some s \<Rightarrow> utf8_encode (unicodedata_normalize e f s))"

subsection \<open>An instance of the environment\<close>

text \<open>
  The examples need a concrete normalization routine. This one is Unicode normalization
  over the one canonical decomposition U+00E9 = U+0065 U+0301: the decomposing forms split
  U+00E9, the composing forms split it and then join every U+0065 U+0301 from the left.
  It is a stand-in, not the library routine: it knows no other decomposition (it leaves
  U+0061 U+0301 as it is, where NFC gives U+00E1), and the examples use it only on text
  on which the two agree.
\<close>

fun decompose_fragment :: "str \<Rightarrow> str" where
  "decompose_fragment [] = []"
| "decompose_fragment (c # cs) =
     (if c = 0xE9 then 0x65 # 0x301 # decompose_fragment cs else c # decompose_fragment cs)"

fun compose_fragment :: "str \<Rightarrow> str" where
  "compose_fragment [] = []"
| "compose_fragment [a] = [a]"
| "compose_fragment (a # b # r) =
     (if a = 0x65 \<and> b = 0x301 then 0xE9 # compose_fragment r
      else a # compose_fragment (b # r))"

definition fragment_normalize :: "string \<Rightarrow> str \<Rightarrow> str" where
  "fragment_normalize f s =
     (if f = ''NFD'' \<or> f = ''NFKD'' then decompose_fragment s
      else compose_fragment (decompose_fragment s))"

definition fragment_env :: "platform \<Rightarrow> env" where
  "fragment_env pf = \<lparr>unicodedata_normalize = fragment_normalize, os_name = pf\<rparr>"

text \<open>
  The world at the start of a process: the given files, every path string its own
  canonical name, nothing logged, the root logger at the level
  \<open>logging.basicConfig(level=logging.INFO)\<close> sets, no file-system call made.
\<close>

definition initial_world :: "(canonical \<rightharpoonup> node) \<Rightarrow> world" where
  "initial_world fs =
     \<lparr>files = fs, resolve = (\<lambda>p. p), logged = [], logger_level = INFO, syscalls = []\<rparr>"

text \<open>
  A world in which \<open>./in.txt\<close> is another name of the file \<open>in.txt\<close>, as it is in any
  working directory.
\<close>

definition dot_slash :: "path \<Rightarrow> canonical" where
  "dot_slash p = (if p = ''./in.txt'' then ''in.txt'' else p)"

definition aliased_world :: "(canonical \<rightharpoonup> node) \<Rightarrow> world" where
  "aliased_world fs = (initial_world fs)\<lparr>resolve := dot_slash\<rparr>"

definition command_line :: "path \<Rightarrow> path \<Rightarrow> string \<Rightarrow> cli" where
  "command_line i out f =
     \<lparr>cli_input_file = i, cli_output_file = out, cli_form = Some f, cli_log_level = None\<rparr>"

section \<open>Lemmas about the model\<close>

subsection \<open>The state and the command line\<close>

lemma parse_args_Inr:
  assumes "parse_args c = Inr a"
  shows "input_file a = cli_input_file c" and "output_file a = cli_output_file c"
    and "form a \<in> set [''NFC'', ''NFKD'', ''NFD'', ''NFKC'']"
  using assms by (auto simp: parse_args_def Let_def split: if_splits)

lemma parse_args_command_line:
  "f \<in> set [''NFC'', ''NFKD'', ''NFD'', ''NFKC''] \<Longrightarrow>
   parse_args (command_line i out f) =
     Inr \<lparr>input_file = i, output_file = out, form = f, log_level = ''INFO''\<rparr>"
  by (auto simp: parse_args_def command_line_def)

lemma parse_nfc:
  "parse_args (command_line ''in.txt'' ''out.txt'' ''NFC'') =
     Inr \<lparr>input_file = ''in.txt'', output_file = ''out.txt'', form = ''NFC'', log_level = ''INFO''\<rparr>"
  by (simp add: parse_args_def command_line_def)

lemma resolve_sys [simp]: "resolve (sys c w) = resolve w"
  by (simp add: sys_def)

lemma resolve_logging [simp]: "resolve (logging l m w) = resolve w"
  by (simp add: logging_def)

lemma resolve_initial_world [simp]: "resolve (initial_world fs) p = p"
  by (simp add: initial_world_def)

lemma files_initial_world [simp]: "files (initial_world fs) = fs"
  by (simp add: initial_world_def)

lemma files_sys [simp]: "files (sys c w) = files w"
  by (simp add: sys_def)

lemma files_logging [simp]: "files (logging l m w) = files w"
  by (simp add: logging_def)

lemma logged_sys [simp]: "logged (sys c w) = logged w"
  by (simp add: sys_def)

lemma syscalls_logging [simp]: "syscalls (logging l m w) = syscalls w"
  by (simp add: logging_def)

lemma syscalls_sys [simp]: "syscalls (sys c w) = syscalls w @ [c]"
  by (simp add: sys_def)

lemma logged_logging [simp]: "logged (logging l m w) = logged w @ [(l, m)]"
  by (simp add: logging_def)

lemma normalize_fragment_env [simp]:
  "unicodedata_normalize (fragment_env pf) = fragment_normalize"
  "os_name (fragment_env pf) = pf"
  by (simp_all add: fragment_env_def)

subsection \<open>The UTF-8 codec\<close>

lemma unat_byte: "n < 256 \<Longrightarrow> unat (of_nat n :: byte) = n"
  by (simp add: unat_of_nat)

lemma split2: "d div 64 * (64 * k) + d mod 64 * k = d * (k::nat)"
proof -
  have "d div 64 * (64 * k) + d mod 64 * k = (d div 64 * 64 + d mod 64) * k"
    by (simp only: add_mult_distrib mult.assoc)
  also have "\<dots> = d * k" by (simp only: div_mult_mod_eq)
  finally show ?thesis .
qed

lemma split3: "c div 4096 * 4096 + c div 64 mod 64 * 64 + c mod 64 = (c::nat)"
proof -
  have "c div 4096 = c div 64 div 64" by (simp add: div_mult2_eq)
  then have "c div 4096 * 4096 + c div 64 mod 64 * 64 = c div 64 * 64"
    using split2 [of "c div 64" 64] by simp
  then show ?thesis by simp
qed

lemma split4:
  "c div 262144 * 262144 + c div 4096 mod 64 * 4096 + c div 64 mod 64 * 64 + c mod 64 = (c::nat)"
proof -
  have "c div 262144 = c div 4096 div 64" by (simp add: div_mult2_eq)
  then have "c div 262144 * 262144 + c div 4096 mod 64 * 4096 = c div 4096 * 4096"
    using split2 [of "c div 4096" 4096] by simp
  then show ?thesis using split3 [of c] by simp
qed

lemma decode_encode_char1:
  assumes "c < 0x80"
  shows "utf8_decode (utf8_encode_char c @ bs) = map_option ((#) c) (utf8_decode bs)"
proof -
  have u: "unat (of_nat c :: byte) = c" using assms by (simp add: unat_byte)
  show ?thesis using assms by (simp add: utf8_encode_char_def u)
qed

lemma decode_encode_char2:
  assumes "0x80 \<le> c" "c < 0x800"
  shows "utf8_decode (utf8_encode_char c @ bs) = map_option ((#) c) (utf8_decode bs)"
proof -
  define h where "h = c div 64"
  define l where "l = c mod 64"
  define b0 :: byte where "b0 = of_nat (0xC0 + c div 64)"
  define b1 :: byte where "b1 = of_nat (0x80 + c mod 64)"
  have hl: "2 \<le> h" "h < 32" "l < 64" "h * 64 + l = c"
    using assms by (auto simp: h_def l_def)
  have u0: "unat b0 = 0xC0 + h" unfolding b0_def h_def [symmetric]
    by (rule unat_byte) (use hl in simp)
  have u1: "unat b1 = 0x80 + l" unfolding b1_def l_def [symmetric]
    by (rule unat_byte) (use hl in simp)
  have e: "utf8_encode_char c = [b0, b1]"
    unfolding utf8_encode_char_def b0_def b1_def using assms by simp
  show ?thesis unfolding e using hl by (simp add: u0 u1 continuation_def)
qed

lemma decode_encode_char3:
  assumes "0x800 \<le> c" "c < 0x10000" "scalar c"
  shows "utf8_decode (utf8_encode_char c @ bs) = map_option ((#) c) (utf8_decode bs)"
proof -
  define h where "h = c div 4096"
  define m where "m = c div 64 mod 64"
  define l where "l = c mod 64"
  define b0 :: byte where "b0 = of_nat (0xE0 + c div 4096)"
  define b1 :: byte where "b1 = of_nat (0x80 + c div 64 mod 64)"
  define b2 :: byte where "b2 = of_nat (0x80 + c mod 64)"
  have hl: "h < 16" "m < 64" "l < 64"
    using assms by (auto simp: h_def m_def l_def)
  have c: "h * 4096 + m * 64 + l = c"
    unfolding h_def m_def l_def by (rule split3)
  have u0: "unat b0 = 0xE0 + h" unfolding b0_def h_def [symmetric]
    by (rule unat_byte) (use hl in simp)
  have u1: "unat b1 = 0x80 + m" unfolding b1_def m_def [symmetric]
    by (rule unat_byte) (use hl in simp)
  have u2: "unat b2 = 0x80 + l" unfolding b2_def l_def [symmetric]
    by (rule unat_byte) (use hl in simp)
  have e: "utf8_encode_char c = [b0, b1, b2]"
    unfolding utf8_encode_char_def b0_def b1_def b2_def using assms by simp
  show ?thesis unfolding e using hl assms by (simp add: u0 u1 u2 c continuation_def)
qed

lemma decode_encode_char4:
  assumes "0x10000 \<le> c" "scalar c"
  shows "utf8_decode (utf8_encode_char c @ bs) = map_option ((#) c) (utf8_decode bs)"
proof -
  define h where "h = c div 262144"
  define m where "m = c div 4096 mod 64"
  define n where "n = c div 64 mod 64"
  define l where "l = c mod 64"
  define b0 :: byte where "b0 = of_nat (0xF0 + c div 262144)"
  define b1 :: byte where "b1 = of_nat (0x80 + c div 4096 mod 64)"
  define b2 :: byte where "b2 = of_nat (0x80 + c div 64 mod 64)"
  define b3 :: byte where "b3 = of_nat (0x80 + c mod 64)"
  have c: "c < 0x110000" using assms by (simp add: scalar_def)
  have hl: "h < 5" "m < 64" "n < 64" "l < 64"
    using assms c by (auto simp: h_def m_def n_def l_def)
  have s: "h * 262144 + m * 4096 + n * 64 + l = c"
    unfolding h_def m_def n_def l_def by (rule split4)
  have u0: "unat b0 = 0xF0 + h" unfolding b0_def h_def [symmetric]
    by (rule unat_byte) (use hl in simp)
  have u1: "unat b1 = 0x80 + m" unfolding b1_def m_def [symmetric]
    by (rule unat_byte) (use hl in simp)
  have u2: "unat b2 = 0x80 + n" unfolding b2_def n_def [symmetric]
    by (rule unat_byte) (use hl in simp)
  have u3: "unat b3 = 0x80 + l" unfolding b3_def l_def [symmetric]
    by (rule unat_byte) (use hl in simp)
  have e: "utf8_encode_char c = [b0, b1, b2, b3]"
    unfolding utf8_encode_char_def b0_def b1_def b2_def b3_def using assms by simp
  show ?thesis unfolding e using hl assms by (simp add: u0 u1 u2 u3 s continuation_def)
qed

lemma decode_encode_char:
  assumes "scalar c"
  shows "utf8_decode (utf8_encode_char c @ bs) = map_option ((#) c) (utf8_decode bs)"
proof -
  consider "c < 0x80" | "0x80 \<le> c" "c < 0x800" | "0x800 \<le> c" "c < 0x10000" | "0x10000 \<le> c"
    by linarith
  then show ?thesis
    using assms decode_encode_char1 decode_encode_char2 decode_encode_char3 decode_encode_char4
    by cases blast+
qed

lemma utf8_encode_scalar:
  "list_all scalar s \<Longrightarrow> \<exists>bs. utf8_encode s = Some bs"
  by (induction s) auto

lemma utf8_decode_encode:
  "utf8_encode s = Some bs \<Longrightarrow> utf8_decode bs = Some s"
proof (induction s arbitrary: bs)
  case Nil
  then show ?case by simp
next
  case (Cons c cs)
  from Cons.prems obtain r where c: "scalar c" and r: "utf8_encode cs = Some r"
    and bs: "bs = utf8_encode_char c @ r"
    by (auto split: if_splits)
  from Cons.IH [OF r] show ?case
    by (simp add: bs decode_encode_char [OF c])
qed

lemma utf8_decode_step:
  assumes "utf8_decode (b # bs) = Some s"
  shows "\<exists>c t r. s = c # t \<and> scalar c \<and> utf8_decode r = Some t \<and> length r \<le> length bs"
proof -
  consider "unat b < 0x80" | "0xC2 \<le> unat b \<and> unat b \<le> 0xDF"
    | "0xE0 \<le> unat b \<and> unat b \<le> 0xEF" | "0xF0 \<le> unat b \<and> unat b \<le> 0xF4"
    | "\<not> unat b < 0x80" "\<not> (0xC2 \<le> unat b \<and> unat b \<le> 0xDF)"
      "\<not> (0xE0 \<le> unat b \<and> unat b \<le> 0xEF)" "\<not> (0xF0 \<le> unat b \<and> unat b \<le> 0xF4)"
    by blast
  then show ?thesis
  proof cases
    case 1
    with assms obtain t where "utf8_decode bs = Some t" "s = unat b # t" by auto
    moreover have "scalar (unat b)" using 1 by (simp add: scalar_def)
    ultimately show ?thesis by blast
  next
    case 2
    with assms obtain b1 r where bs: "bs = b1 # r" by (cases bs) auto
    from assms 2 bs have k: "continuation b1" by (auto split: if_splits)
    from assms 2 bs k obtain t where t: "utf8_decode r = Some t"
      and s: "s = ((unat b - 0xC0) * 64 + (unat b1 - 0x80)) # t"
      by auto
    have "unat b - 0xC0 \<le> 31" using 2 by linarith
    then have "(unat b - 0xC0) * 64 \<le> 31 * 64" by (rule mult_le_mono1)
    moreover have "unat b1 - 0x80 \<le> 63" using k unfolding continuation_def by linarith
    ultimately have "scalar ((unat b - 0xC0) * 64 + (unat b1 - 0x80))"
      by (simp add: scalar_def)
    with t s bs show ?thesis by auto
  next
    case 3
    then have n: "\<not> unat b < 0x80" "\<not> (0xC2 \<le> unat b \<and> unat b \<le> 0xDF)" by auto
    from assms 3 n obtain b1 b2 r where bs: "bs = b1 # b2 # r"
      by (cases bs; cases "tl bs") auto
    define c where "c = (unat b - 0xE0) * 4096 + (unat b1 - 0x80) * 64 + (unat b2 - 0x80)"
    from assms 3 n bs have k: "scalar c"
      by (auto simp: c_def Let_def split: if_splits)
    from assms 3 n bs obtain t where t: "utf8_decode r = Some t" and s: "s = c # t"
      by (auto simp: c_def Let_def split: if_splits)
    with k bs show ?thesis by auto
  next
    case 4
    then have n: "\<not> unat b < 0x80" "\<not> (0xC2 \<le> unat b \<and> unat b \<le> 0xDF)"
      "\<not> (0xE0 \<le> unat b \<and> unat b \<le> 0xEF)" by auto
    from assms 4 n obtain b1 b2 b3 r where bs: "bs = b1 # b2 # b3 # r"
      by (cases bs; cases "tl bs"; cases "tl (tl bs)") auto
    define c where "c = (unat b - 0xF0) * 262144 + (unat b1 - 0x80) * 4096
                      + (unat b2 - 0x80) * 64 + (unat b3 - 0x80)"
    from assms 4 n bs have k: "scalar c"
      by (auto simp: c_def Let_def split: if_splits)
    from assms 4 n bs obtain t where t: "utf8_decode r = Some t" and s: "s = c # t"
      by (auto simp: c_def Let_def split: if_splits)
    with k bs show ?thesis by auto
  next
    case 5
    with assms show ?thesis by simp
  qed
qed

lemma utf8_decode_scalar:
  "utf8_decode bs = Some s \<Longrightarrow> list_all scalar s"
proof (induction bs arbitrary: s rule: length_induct)
  case (1 bs)
  show ?case
  proof (cases bs)
    case Nil
    with 1 show ?thesis by simp
  next
    case (Cons b r)
    from utf8_decode_step [of b r s] 1(2) Cons
    obtain c t r' where s: "s = c # t" and c: "scalar c" and t: "utf8_decode r' = Some t"
      and l: "length r' \<le> length r"
      by blast
    from l Cons have "length r' < length bs" by simp
    with 1(1) t have "list_all scalar t" by blast
    with s c show ?thesis by simp
  qed
qed

subsection \<open>Newlines\<close>

lemma scalar_lf: "scalar lf" and scalar_cr: "scalar cr"
  by (simp_all add: scalar_def lf_def cr_def)

lemma cr_neq_lf: "cr \<noteq> lf"
  by (simp add: cr_def lf_def)

lemma universal_newlines_no_cr: "cr \<notin> set (universal_newlines s)"
  by (induction s rule: universal_newlines.induct) (auto simp: cr_neq_lf)

lemma universal_newlines_id: "cr \<notin> set s \<Longrightarrow> universal_newlines s = s"
  by (induction s rule: universal_newlines.induct) auto

lemma universal_newlines_scalar:
  "list_all scalar s \<Longrightarrow> list_all scalar (universal_newlines s)"
  by (induction s rule: universal_newlines.induct) (auto simp: scalar_lf)

lemma write_newlines_Posix: "write_newlines Posix s = s"
  by (induction s) (auto simp: write_newlines_def)

lemma write_newlines_Cons:
  "write_newlines pf (c # s) = (if c = lf then os_linesep pf else [c]) @ write_newlines pf s"
  by (simp add: write_newlines_def)

lemma write_newlines_scalar:
  "list_all scalar s \<Longrightarrow> list_all scalar (write_newlines pf s)"
  by (induction s; cases pf) (auto simp: write_newlines_def scalar_lf scalar_cr)

lemma universal_newlines_other:
  "c \<noteq> cr \<Longrightarrow> universal_newlines (c # s) = c # universal_newlines s"
  by (cases s) auto

lemma universal_newlines_crlf:
  "universal_newlines (cr # lf # s) = lf # universal_newlines s"
  by simp

lemma read_write_newlines:
  "cr \<notin> set t \<Longrightarrow> universal_newlines (write_newlines pf t) = t"
proof (induction t)
  case Nil
  then show ?case by (simp add: write_newlines_def)
next
  case (Cons c t)
  then have ih: "universal_newlines (write_newlines pf t) = t" and c: "c \<noteq> cr" by auto
  show ?case
  proof (cases pf)
    case Posix
    with Cons.prems show ?thesis by (simp add: write_newlines_Posix universal_newlines_id)
  next
    case Windows
    show ?thesis
    proof (cases "c = lf")
      case True
      then show ?thesis
        using ih Windows by (simp add: write_newlines_Cons universal_newlines_crlf del: universal_newlines.simps)
    next
      case False
      then show ?thesis
        using ih c by (simp add: write_newlines_Cons universal_newlines_other del: universal_newlines.simps)
    qed
  qed
qed

subsection \<open>The instance of the normalization routine\<close>

lemma decompose_fragment_scalar:
  "list_all scalar s \<Longrightarrow> list_all scalar (decompose_fragment s)"
  by (induction s) (auto simp: scalar_def)

lemma compose_fragment_scalar:
  "list_all scalar s \<Longrightarrow> list_all scalar (compose_fragment s)"
  by (induction s rule: compose_fragment.induct) (auto simp: scalar_def)

lemma fragment_normalize_scalar:
  "list_all scalar s \<Longrightarrow> list_all scalar (fragment_normalize f s)"
  by (simp add: fragment_normalize_def decompose_fragment_scalar compose_fragment_scalar)

lemma decompose_fragment_set: "set (decompose_fragment s) \<subseteq> set s \<union> {0x65, 0x301}"
  by (induction s) auto

lemma compose_fragment_set: "set (compose_fragment s) \<subseteq> set s \<union> {0xE9}"
  by (induction s rule: compose_fragment.induct) auto

lemma fragment_normalize_cr:
  assumes "cr \<notin> set s"
  shows "cr \<notin> set (fragment_normalize f s)"
proof -
  have "set (fragment_normalize f s) \<subseteq> set s \<union> {0x65, 0x301, 0xE9}"
    using decompose_fragment_set [of s] compose_fragment_set [of "decompose_fragment s"]
    by (auto simp: fragment_normalize_def)
  with assms show ?thesis by (auto simp: cr_def)
qed

lemma decompose_fragment_free: "0xE9 \<notin> set (decompose_fragment s)"
  by (induction s) auto

lemma decompose_fragment_id: "0xE9 \<notin> set s \<Longrightarrow> decompose_fragment s = s"
  by (induction s) auto

lemma decompose_compose_fragment:
  "0xE9 \<notin> set s \<Longrightarrow> decompose_fragment (compose_fragment s) = s"
  by (induction s rule: compose_fragment.induct) auto

lemma fragment_normalize_idem:
  "fragment_normalize f (fragment_normalize f s) = fragment_normalize f s"
  by (simp add: fragment_normalize_def decompose_fragment_free decompose_fragment_id
        decompose_compose_fragment)

subsection \<open>The paths through normalize_unicode and main\<close>

lemma normalize_unicode_regular:
  assumes f: "f \<in> set [''NFC'', ''NFKD'', ''NFD'', ''NFKC'']"
    and i: "files w (resolve w i) = Some (RegFile bs)"
    and d: "utf8_decode bs = Some s"
    and o: "files w (resolve w out) \<noteq> Some Directory"
  shows "normalize_unicode e i out f w =
     (case utf8_encode (write_newlines (os_name e) (unicodedata_normalize e f (universal_newlines s))) of
        None \<Rightarrow> (Inl UnicodeEncodeError,
           logging ERROR (An_unexpected_error_occurred UnicodeEncodeError)
             ((sys (OpenWrite out) (sys (OpenRead i) (sys (Stat i) w)))
                \<lparr>files := (files w)(resolve w out \<mapsto> RegFile [])\<rparr>))
      | Some ob \<Rightarrow> (Inr (),
           logging INFO (Successfully_normalized i out f)
             ((sys (OpenWrite out) (sys (OpenRead i) (sys (Stat i) w)))
                \<lparr>files := (files w)(resolve w out \<mapsto> RegFile ob)\<rparr>)))"
proof -
  from f have nf: "\<not> f \<notin> set [''NFC'', ''NFKD'', ''NFD'', ''NFKC'']" by simp
  have r: "read_text e i (sys (Stat i) w) = (Inr (universal_newlines s), sys (OpenRead i) (sys (Stat i) w))"
    using i d by (simp add: read_text_def)
  show ?thesis
    unfolding normalize_unicode_def if_not_P [OF nf]
    using i o r
    by (cases "files w (resolve w out)"; cases "utf8_encode (write_newlines (os_name e) (unicodedata_normalize e f (universal_newlines s)))")
       (auto simp: path_exists_def normalize_body_def write_text_def Let_def normalize_handler_def
          split: node.splits)
qed

lemma normalize_unicode_undecodable:
  assumes f: "f \<in> set [''NFC'', ''NFKD'', ''NFD'', ''NFKC'']"
    and i: "files w (resolve w i) = Some (RegFile bs)"
    and d: "utf8_decode bs = None"
  shows "normalize_unicode e i out f w =
     (Inl UnicodeDecodeError,
      logging ERROR (Unicode_decode_error UnicodeDecodeError)
        (sys (OpenRead i) (sys (Stat i) w)))"
proof -
  from f have nf: "\<not> f \<notin> set [''NFC'', ''NFKD'', ''NFD'', ''NFKC'']" by simp
  show ?thesis
    unfolding normalize_unicode_def if_not_P [OF nf]
    using i d
    by (simp add: path_exists_def normalize_body_def read_text_def Let_def normalize_handler_def)
qed

lemma normalize_unicode_Inr:
  assumes "normalize_unicode e i out f w = (Inr u, w')"
  shows "\<exists>bs s ob. files w (resolve w i) = Some (RegFile bs) \<and> utf8_decode bs = Some s
           \<and> utf8_encode (write_newlines (os_name e)
                 (unicodedata_normalize e f (universal_newlines s))) = Some ob
           \<and> files w' = (files w)(resolve w out \<mapsto> RegFile ob)"
  using assms
  by (auto simp: normalize_unicode_def path_exists_def normalize_body_def read_text_def
        write_text_def Let_def split: option.splits node.splits sum.splits prod.splits if_splits)

lemma normalize_unicode_frame:
  "q \<noteq> resolve w out \<Longrightarrow> files (snd (normalize_unicode e i out f w)) q = files w q"
  by (auto simp: normalize_unicode_def path_exists_def normalize_body_def read_text_def
        write_text_def Let_def split: option.splits node.splits sum.splits prod.splits)

lemma normalize_unicode_resolve:
  "resolve (snd (normalize_unicode e i out f w)) = resolve w"
  by (auto simp: normalize_unicode_def path_exists_def normalize_body_def read_text_def
        write_text_def Let_def split: option.splits node.splits sum.splits prod.splits)

lemma normalize_unicode_writes:
  "OpenWrite p \<in> set (syscalls (snd (normalize_unicode e i out f w))) \<Longrightarrow>
   OpenWrite p \<in> set (syscalls w) \<or> p = out"
  by (auto simp: normalize_unicode_def path_exists_def normalize_body_def read_text_def
        write_text_def Let_def split: option.splits node.splits sum.splits prod.splits if_splits)

lemma main_not_file:
  assumes "parse_args c = Inr a"
    and "\<forall>bs. files w (resolve w (input_file a)) \<noteq> Some (RegFile bs)"
  shows "main e c w =
     (1, logging ERROR (Input_file_is_not_a_valid_file (input_file a))
           (sys (Stat (input_file a)) (w\<lparr>logger_level := level_of_name (log_level a)\<rparr>)))"
  using assms
  by (auto simp: main_def Let_def path_is_file_def sys_def split: option.splits node.splits)

lemma main_file:
  assumes "parse_args c = Inr a"
    and "files w (resolve w (input_file a)) = Some (RegFile bs)"
    and "normalize_unicode e (input_file a) (output_file a) (form a)
           (sys (Stat (input_file a)) (w\<lparr>logger_level := level_of_name (log_level a)\<rparr>)) = (r, w2)"
  shows "main e c w =
     (case r of Inl x \<Rightarrow> (1, logging ERROR (main_handler x) w2) | Inr u \<Rightarrow> (0, w2))"
  using assms
  by (auto simp: main_def Let_def path_is_file_def sys_def split: sum.splits)

lemma main_frame:
  assumes "q \<noteq> resolve w (cli_output_file c)"
  shows "files (snd (main e c w)) q = files w q"
proof (cases "parse_args c")
  case (Inl n)
  then show ?thesis by (simp add: main_def)
next
  case (Inr a)
  let ?w1 = "sys (Stat (input_file a)) (w\<lparr>logger_level := level_of_name (log_level a)\<rparr>)"
  from assms have po: "q \<noteq> resolve ?w1 (output_file a)"
    using parse_args_Inr(2) [OF Inr] by simp
  show ?thesis
  proof (cases "\<exists>bs. files w (resolve w (input_file a)) = Some (RegFile bs)")
    case False
    then show ?thesis using main_not_file [OF Inr, of w e] by simp
  next
    case True
    then obtain bs where bs: "files w (resolve w (input_file a)) = Some (RegFile bs)" by blast
    obtain r w2 where n: "normalize_unicode e (input_file a) (output_file a) (form a) ?w1 = (r, w2)"
      by (cases "normalize_unicode e (input_file a) (output_file a) (form a) ?w1")
    from normalize_unicode_frame [OF po, of e "input_file a" "form a"] n
    have "files w2 q = files w q" by simp
    then show ?thesis using main_file [OF Inr bs n] by (cases r) simp_all
  qed
qed

lemma main_resolve: "resolve (snd (main e c w)) = resolve w"
proof (cases "parse_args c")
  case (Inl n)
  then show ?thesis by (simp add: main_def)
next
  case (Inr a)
  let ?w1 = "sys (Stat (input_file a)) (w\<lparr>logger_level := level_of_name (log_level a)\<rparr>)"
  show ?thesis
  proof (cases "\<exists>bs. files w (resolve w (input_file a)) = Some (RegFile bs)")
    case False
    then show ?thesis using main_not_file [OF Inr, of w e] by simp
  next
    case True
    then obtain bs where bs: "files w (resolve w (input_file a)) = Some (RegFile bs)" by blast
    obtain r w2 where n: "normalize_unicode e (input_file a) (output_file a) (form a) ?w1 = (r, w2)"
      by (cases "normalize_unicode e (input_file a) (output_file a) (form a) ?w1")
    from normalize_unicode_resolve [of e "input_file a" "output_file a" "form a" ?w1] n
    have "resolve w2 = resolve w" by simp
    then show ?thesis using main_file [OF Inr bs n] by (cases r) simp_all
  qed
qed

lemma main_writes:
  assumes h: "OpenWrite p \<in> set (syscalls (snd (main e c w)))"
  shows "OpenWrite p \<in> set (syscalls w) \<or> p = cli_output_file c"
proof (cases "parse_args c")
  case (Inl n)
  then show ?thesis using h by (simp add: main_def)
next
  case (Inr a)
  let ?w1 = "sys (Stat (input_file a)) (w\<lparr>logger_level := level_of_name (log_level a)\<rparr>)"
  show ?thesis
  proof (cases "\<exists>bs. files w (resolve w (input_file a)) = Some (RegFile bs)")
    case False
    then show ?thesis using h main_not_file [OF Inr, of w e] by simp
  next
    case True
    then obtain bs where bs: "files w (resolve w (input_file a)) = Some (RegFile bs)" by blast
    obtain r w2 where n: "normalize_unicode e (input_file a) (output_file a) (form a) ?w1 = (r, w2)"
      by (cases "normalize_unicode e (input_file a) (output_file a) (form a) ?w1")
    from h main_file [OF Inr bs n] have "OpenWrite p \<in> set (syscalls w2)"
      by (cases r) simp_all
    with n have "OpenWrite p \<in> set (syscalls (snd (normalize_unicode e (input_file a) (output_file a) (form a) ?w1)))"
      by simp
    from normalize_unicode_writes [OF this] show ?thesis
      using parse_args_Inr(2) [OF Inr] by auto
  qed
qed

lemma main_regular:
  assumes p: "parse_args c = Inr a"
    and i: "files w (resolve w (input_file a)) = Some (RegFile bs)"
    and o: "files w (resolve w (output_file a)) \<noteq> Some Directory"
    and en: "written_output e (form a) bs = Some ob"
  shows "main e c w =
     (0, logging INFO (Successfully_normalized (input_file a) (output_file a) (form a))
           ((sys (OpenWrite (output_file a)) (sys (OpenRead (input_file a))
              (sys (Stat (input_file a))
                (sys (Stat (input_file a)) (w\<lparr>logger_level := level_of_name (log_level a)\<rparr>)))))
            \<lparr>files := (files w)(resolve w (output_file a) \<mapsto> RegFile ob)\<rparr>))"
proof -
  let ?w1 = "sys (Stat (input_file a)) (w\<lparr>logger_level := level_of_name (log_level a)\<rparr>)"
  from en obtain s where d: "utf8_decode bs = Some s"
    and e: "utf8_encode (write_newlines (os_name e)
              (unicodedata_normalize e (form a) (universal_newlines s))) = Some ob"
    by (auto simp: written_output_def split: option.splits)
  have i1: "files ?w1 (resolve ?w1 (input_file a)) = Some (RegFile bs)" using i by simp
  have o1: "files ?w1 (resolve ?w1 (output_file a)) \<noteq> Some Directory" using o by simp
  from normalize_unicode_regular [OF parse_args_Inr(3) [OF p] i1 d o1, of e] e
  have "normalize_unicode e (input_file a) (output_file a) (form a) ?w1 =
      (Inr (), logging INFO (Successfully_normalized (input_file a) (output_file a) (form a))
           ((sys (OpenWrite (output_file a)) (sys (OpenRead (input_file a))
              (sys (Stat (input_file a)) ?w1)))
            \<lparr>files := (files w)(resolve w (output_file a) \<mapsto> RegFile ob)\<rparr>))"
    by simp
  from main_file [OF p i this] show ?thesis by simp
qed

lemma main_unencodable:
  assumes p: "parse_args c = Inr a"
    and i: "files w (resolve w (input_file a)) = Some (RegFile bs)"
    and o: "files w (resolve w (output_file a)) \<noteq> Some Directory"
    and d: "utf8_decode bs = Some s"
    and en: "written_output e (form a) bs = None"
  shows "fst (main e c w) = 1"
    and "files (snd (main e c w)) = (files w)(resolve w (output_file a) \<mapsto> RegFile [])"
proof -
  let ?w1 = "sys (Stat (input_file a)) (w\<lparr>logger_level := level_of_name (log_level a)\<rparr>)"
  from en d have e: "utf8_encode (write_newlines (os_name e)
              (unicodedata_normalize e (form a) (universal_newlines s))) = None"
    by (simp add: written_output_def)
  have i1: "files ?w1 (resolve ?w1 (input_file a)) = Some (RegFile bs)" using i by simp
  have o1: "files ?w1 (resolve ?w1 (output_file a)) \<noteq> Some Directory" using o by simp
  from normalize_unicode_regular [OF parse_args_Inr(3) [OF p] i1 d o1, of e] e
  have "normalize_unicode e (input_file a) (output_file a) (form a) ?w1 =
      (Inl UnicodeEncodeError,
           logging ERROR (An_unexpected_error_occurred UnicodeEncodeError)
             ((sys (OpenWrite (output_file a)) (sys (OpenRead (input_file a))
                (sys (Stat (input_file a)) ?w1)))
                \<lparr>files := (files w)(resolve w (output_file a) \<mapsto> RegFile [])\<rparr>))"
    by simp
  from main_file [OF p i this]
  show "fst (main e c w) = 1"
    and "files (snd (main e c w)) = (files w)(resolve w (output_file a) \<mapsto> RegFile [])"
    by simp_all
qed

lemma written_output_total:
  assumes d: "utf8_decode bs = Some s"
    and n: "\<forall>t. list_all scalar t \<longrightarrow> list_all scalar (unicodedata_normalize e f t)"
  shows "\<exists>ob. written_output e f bs = Some ob"
proof -
  have "list_all scalar (universal_newlines s)"
    using utf8_decode_scalar [OF d] by (rule universal_newlines_scalar)
  with n have "list_all scalar (unicodedata_normalize e f (universal_newlines s))" by blast
  then have "list_all scalar (write_newlines (os_name e)
      (unicodedata_normalize e f (universal_newlines s)))"
    by (rule write_newlines_scalar)
  from utf8_encode_scalar [OF this] show ?thesis by (simp add: written_output_def d)
qed

lemma written_output_fixed:
  assumes d: "utf8_decode bs = Some s"
    and w: "written_output e f bs = Some ob"
    and nc: "\<forall>t. cr \<notin> set t \<longrightarrow> cr \<notin> set (unicodedata_normalize e f t)"
    and idem: "\<forall>t. list_all scalar t \<longrightarrow>
        unicodedata_normalize e f (unicodedata_normalize e f t) = unicodedata_normalize e f t"
  shows "written_output e f ob = Some ob"
proof -
  define t where "t = unicodedata_normalize e f (universal_newlines s)"
  from w d have ob: "utf8_encode (write_newlines (os_name e) t) = Some ob"
    by (simp add: written_output_def t_def)
  have dec: "utf8_decode ob = Some (write_newlines (os_name e) t)"
    using ob by (rule utf8_decode_encode)
  have "cr \<notin> set t"
    unfolding t_def using nc universal_newlines_no_cr [of s] by blast
  then have rd: "universal_newlines (write_newlines (os_name e) t) = t"
    by (rule read_write_newlines)
  have "list_all scalar (universal_newlines s)"
    using utf8_decode_scalar [OF d] by (rule universal_newlines_scalar)
  with idem have "unicodedata_normalize e f t = t"
    unfolding t_def by blast
  with dec rd ob show ?thesis by (simp add: written_output_def)
qed

lemma written_output_specified:
  assumes "os_name e = Posix" and "utf8_decode bs = Some s" and "cr \<notin> set s"
  shows "written_output e f bs = specified_output e f bs"
  using assms
  by (simp add: written_output_def specified_output_def write_newlines_Posix
        universal_newlines_id)

lemma written_output_e_acute:
  "written_output (fragment_env Posix) ''NFC'' [0x65, 0xCC, 0x81] = Some [0xC3, 0xA9]"
  by (simp add: written_output_def continuation_def scalar_def cr_def lf_def
        fragment_normalize_def write_newlines_def utf8_encode_char_def)

lemma main_e_acute:
  "main (fragment_env Posix) (command_line ''in.txt'' ''out.txt'' ''NFC'')
        (initial_world [''in.txt'' \<mapsto> RegFile [0x65, 0xCC, 0x81]])
   = (0, \<lparr>files = [''in.txt'' \<mapsto> RegFile [0x65, 0xCC, 0x81], ''out.txt'' \<mapsto> RegFile [0xC3, 0xA9]],
          resolve = (\<lambda>p. p),
          logged = [(INFO, Successfully_normalized ''in.txt'' ''out.txt'' ''NFC'')],
          logger_level = INFO,
          syscalls = [Stat ''in.txt'', Stat ''in.txt'', OpenRead ''in.txt'', OpenWrite ''out.txt'']\<rparr>)"
proof -
  have i: "files (initial_world [''in.txt'' \<mapsto> RegFile [0x65, 0xCC, 0x81]])
      (resolve (initial_world [''in.txt'' \<mapsto> RegFile [0x65, 0xCC, 0x81]]) (input_file \<lparr>input_file = ''in.txt'', output_file = ''out.txt'', form = ''NFC'',
         log_level = ''INFO''\<rparr>)) = Some (RegFile [0x65, 0xCC, 0x81])"
    by (simp add: initial_world_def)
  have o: "files (initial_world [''in.txt'' \<mapsto> RegFile [0x65, 0xCC, 0x81]])
      (resolve (initial_world [''in.txt'' \<mapsto> RegFile [0x65, 0xCC, 0x81]]) (output_file \<lparr>input_file = ''in.txt'', output_file = ''out.txt'', form = ''NFC'',
         log_level = ''INFO''\<rparr>)) \<noteq> Some Directory"
    by (simp add: initial_world_def)
  have en: "written_output (fragment_env Posix)
      (form \<lparr>input_file = ''in.txt'', output_file = ''out.txt'', form = ''NFC'',
         log_level = ''INFO''\<rparr>) [0x65, 0xCC, 0x81] = Some [0xC3, 0xA9]"
    by (simp add: written_output_e_acute)
  show ?thesis
    using main_regular [OF parse_nfc i o en]
    by (simp add: initial_world_def sys_def logging_def level_of_name_def)
qed

section \<open>The claims\<close>

subsection \<open>C1: what a successful run writes\<close>

text \<open>
  C1, as the specification states it: after a successful run the output file holds the
  input bytes decoded, normalized and encoded. Text mode translates newlines as well: a
  file that holds one carriage return is written back as one line feed, where the
  specified output is the carriage return.
\<close>

theorem newline_translation_counterexample:
  "fst (main (fragment_env Posix) (command_line ''in.txt'' ''out.txt'' ''NFC'')
          (initial_world [''in.txt'' \<mapsto> RegFile [0x0D]])) = 0
   \<and> files (snd (main (fragment_env Posix) (command_line ''in.txt'' ''out.txt'' ''NFC'')
          (initial_world [''in.txt'' \<mapsto> RegFile [0x0D]]))) ''out.txt'' = Some (RegFile [0x0A])
   \<and> specified_output (fragment_env Posix) ''NFC'' [0x0D] = Some [0x0D]
   \<and> files (snd (main (fragment_env Posix) (command_line ''in.txt'' ''out.txt'' ''NFC'')
          (initial_world [''in.txt'' \<mapsto> RegFile [0x0D]]))) ''out.txt''
       \<noteq> map_option RegFile (specified_output (fragment_env Posix) ''NFC'' [0x0D])"
proof -
  have i: "files (initial_world [''in.txt'' \<mapsto> RegFile [0x0D]])
      (resolve (initial_world [''in.txt'' \<mapsto> RegFile [0x0D]]) (input_file \<lparr>input_file = ''in.txt'', output_file = ''out.txt'', form = ''NFC'',
         log_level = ''INFO''\<rparr>)) = Some (RegFile [0x0D])"
    by (simp add: initial_world_def)
  have o: "files (initial_world [''in.txt'' \<mapsto> RegFile [0x0D]])
      (resolve (initial_world [''in.txt'' \<mapsto> RegFile [0x0D]]) (output_file \<lparr>input_file = ''in.txt'', output_file = ''out.txt'', form = ''NFC'',
         log_level = ''INFO''\<rparr>)) \<noteq> Some Directory"
    by (simp add: initial_world_def)
  have en: "written_output (fragment_env Posix)
      (form \<lparr>input_file = ''in.txt'', output_file = ''out.txt'', form = ''NFC'',
         log_level = ''INFO''\<rparr>) [0x0D] = Some [0x0A]"
    by (simp add: written_output_def scalar_def cr_def lf_def
        fragment_normalize_def write_newlines_def utf8_encode_char_def)
  have sp: "specified_output (fragment_env Posix) ''NFC'' [0x0D] = Some [0x0D]"
    by (simp add: specified_output_def scalar_def fragment_normalize_def utf8_encode_char_def)
  show ?thesis
    using main_regular [OF parse_nfc i o en] sp by simp
qed

text \<open>
  C1, amended: for every run that ends with exit code 0, the input path names a regular
  file, and the files after the run are the files before it with the output path
  holding exactly \<open>written_output\<close> of the input bytes: the bytes decoded as UTF-8, with
  \<open>\r\n\<close> and \<open>\r\<close> read as \<open>\n\<close>, normalized under the selected form, with \<open>\n\<close>
  written as the line separator of the platform, encoded as UTF-8.
\<close>

theorem successful_run_output:
  assumes p: "parse_args c = Inr a" and z: "fst (main e c w) = 0"
  shows "\<exists>bs ob. files w (resolve w (input_file a)) = Some (RegFile bs)
           \<and> written_output e (form a) bs = Some ob
           \<and> files (snd (main e c w)) = (files w)(resolve w (output_file a) \<mapsto> RegFile ob)"
proof (cases "\<exists>bs. files w (resolve w (input_file a)) = Some (RegFile bs)")
  case False
  then show ?thesis using z main_not_file [OF p, of w e] by simp
next
  case True
  then obtain bs where bs: "files w (resolve w (input_file a)) = Some (RegFile bs)" by blast
  let ?w1 = "sys (Stat (input_file a)) (w\<lparr>logger_level := level_of_name (log_level a)\<rparr>)"
  obtain r w2 where n: "normalize_unicode e (input_file a) (output_file a) (form a) ?w1 = (r, w2)"
    by (cases "normalize_unicode e (input_file a) (output_file a) (form a) ?w1")
  from z main_file [OF p bs n] have r: "r = Inr ()" and m: "snd (main e c w) = w2"
    by (cases r; simp)+
  from normalize_unicode_Inr [OF n [unfolded r]] bs m
  show ?thesis by (auto simp: written_output_def)
qed

theorem successful_run_output_witness:
  "parse_args (command_line ''in.txt'' ''out.txt'' ''NFC'') =
     Inr \<lparr>input_file = ''in.txt'', output_file = ''out.txt'', form = ''NFC'', log_level = ''INFO''\<rparr>
   \<and> fst (main (fragment_env Posix) (command_line ''in.txt'' ''out.txt'' ''NFC'')
           (initial_world [''in.txt'' \<mapsto> RegFile [0x65, 0xCC, 0x81]])) = 0
   \<and> (\<exists>bs ob. files (initial_world [''in.txt'' \<mapsto> RegFile [0x65, 0xCC, 0x81]]) ''in.txt''
                 = Some (RegFile bs)
          \<and> written_output (fragment_env Posix) ''NFC'' bs = Some ob
          \<and> files (snd (main (fragment_env Posix) (command_line ''in.txt'' ''out.txt'' ''NFC'')
                (initial_world [''in.txt'' \<mapsto> RegFile [0x65, 0xCC, 0x81]])))
              = (files (initial_world [''in.txt'' \<mapsto> RegFile [0x65, 0xCC, 0x81]]))
                  (''out.txt'' \<mapsto> RegFile ob))"
proof -
  have z: "fst (main (fragment_env Posix) (command_line ''in.txt'' ''out.txt'' ''NFC'')
           (initial_world [''in.txt'' \<mapsto> RegFile [0x65, 0xCC, 0x81]])) = 0"
    by (simp add: main_e_acute)
  show ?thesis
    using successful_run_output [OF parse_nfc z] parse_nfc z by simp
qed

subsection \<open>C2: a normalization form outside the four\<close>

text \<open>
  C2, as the specification states it: a form outside NFC, NFD, NFKC, NFKD makes the run
  fail with exit code 1. On the command line the \<open>choices\<close> of \<open>--form\<close> reject the value
  first, and the run ends with the exit status 2 of \<open>argparse\<close>.
\<close>

theorem invalid_form_exit_status_counterexample:
  "fst (main (fragment_env Posix) (command_line ''in.txt'' ''out.txt'' ''XYZ'')
          (initial_world Map.empty)) = 2
   \<and> fst (main (fragment_env Posix) (command_line ''in.txt'' ''out.txt'' ''XYZ'')
          (initial_world Map.empty)) \<noteq> 1"
  by (simp add: main_def parse_args_def command_line_def)

text \<open>
  C2, amended: for a form outside NFC, NFD, NFKC, NFKD, \<open>normalize_unicode\<close> raises
  \<open>ValueError\<close> and a run from the command line ends with exit status 2; both leave the
  world as it was: no file-system call is made, no file is read, created or modified.
\<close>

theorem invalid_form_rejected:
  assumes "f \<notin> set [''NFC'', ''NFKD'', ''NFD'', ''NFKC'']"
  shows "normalize_unicode e i out f w = (Inl (ValueError f), w)
       \<and> main e (c\<lparr>cli_form := Some f\<rparr>) w = (2, w)"
  using assms by (simp add: normalize_unicode_def main_def parse_args_def)

theorem invalid_form_rejected_witness:
  "''XYZ'' \<notin> set [''NFC'', ''NFKD'', ''NFD'', ''NFKC'']
   \<and> normalize_unicode (fragment_env Posix) ''in.txt'' ''out.txt'' ''XYZ'' (initial_world Map.empty)
       = (Inl (ValueError ''XYZ''), initial_world Map.empty)
   \<and> main (fragment_env Posix) (command_line ''in.txt'' ''out.txt'' ''XYZ'') (initial_world Map.empty)
       = (2, initial_world Map.empty)"
  using invalid_form_rejected [of "''XYZ''" "fragment_env Posix" "''in.txt''" "''out.txt''"
      "initial_world Map.empty" "command_line ''in.txt'' ''out.txt'' ''NFC''"]
  by (simp add: command_line_def)

subsection \<open>C3: input that is not valid UTF-8\<close>

text \<open>
  C3: when the input file's bytes are not valid UTF-8, the run ends with exit code 1,
  \<open>normalize_unicode\<close> logs the failure as a Unicode decode error (and \<open>main\<close>, whose
  first handler is the one for \<open>ValueError\<close>, logs the same exception once more), and the
  files are what they were: the output path is never opened, so no output file is
  created and an existing one is not modified.
\<close>

theorem invalid_utf8_fails_without_output:
  assumes "parse_args c = Inr a"
    and "files w (resolve w (input_file a)) = Some (RegFile bs)"
    and "utf8_decode bs = None"
  shows "fst (main e c w) = 1
       \<and> files (snd (main e c w)) = files w
       \<and> logged (snd (main e c w)) =
           logged w @ [(ERROR, Unicode_decode_error UnicodeDecodeError),
                       (ERROR, Main_ValueError UnicodeDecodeError)]
       \<and> syscalls (snd (main e c w)) =
           syscalls w @ [Stat (input_file a), Stat (input_file a), OpenRead (input_file a)]"
proof -
  let ?w1 = "sys (Stat (input_file a)) (w\<lparr>logger_level := level_of_name (log_level a)\<rparr>)"
  have i: "files ?w1 (resolve ?w1 (input_file a)) = Some (RegFile bs)" using assms(2) by simp
  note n = normalize_unicode_undecodable [OF parse_args_Inr(3) [OF assms(1)] i assms(3),
      of e "output_file a"]
  show ?thesis
    using main_file [OF assms(1) assms(2) n] by (simp add: main_handler_def)
qed

theorem invalid_utf8_fails_without_output_witness:
  "parse_args (command_line ''in.txt'' ''out.txt'' ''NFC'') =
     Inr \<lparr>input_file = ''in.txt'', output_file = ''out.txt'', form = ''NFC'', log_level = ''INFO''\<rparr>
   \<and> files (initial_world [''in.txt'' \<mapsto> RegFile [0xFF]]) ''in.txt'' = Some (RegFile [0xFF])
   \<and> utf8_decode [0xFF] = None
   \<and> fst (main (fragment_env Posix) (command_line ''in.txt'' ''out.txt'' ''NFC'')
           (initial_world [''in.txt'' \<mapsto> RegFile [0xFF]])) = 1
   \<and> files (snd (main (fragment_env Posix) (command_line ''in.txt'' ''out.txt'' ''NFC'')
           (initial_world [''in.txt'' \<mapsto> RegFile [0xFF]]))) ''out.txt'' = None
   \<and> logged (snd (main (fragment_env Posix) (command_line ''in.txt'' ''out.txt'' ''NFC'')
           (initial_world [''in.txt'' \<mapsto> RegFile [0xFF]]))) =
         [(ERROR, Unicode_decode_error UnicodeDecodeError),
          (ERROR, Main_ValueError UnicodeDecodeError)]"
proof -
  have h2: "files (initial_world [''in.txt'' \<mapsto> RegFile [0xFF]])
              (resolve (initial_world [''in.txt'' \<mapsto> RegFile [0xFF]]) (input_file \<lparr>input_file = ''in.txt'', output_file = ''out.txt'', form = ''NFC'',
                 log_level = ''INFO''\<rparr>)) = Some (RegFile [0xFF])"
    by (simp add: initial_world_def)
  have h3: "utf8_decode [0xFF] = None" by simp
  show ?thesis
    using invalid_utf8_fails_without_output [OF parse_nfc h2 h3, of "fragment_env Posix"] h3
    by (simp add: parse_nfc initial_world_def)
qed

subsection \<open>C4: an input path that does not exist\<close>




subsection \<open>C5: an input path that is not a regular file\<close>

text \<open>
  C5, as the specification states it: the failure for a directory is an InvalidInput
  failure that can be told from the failure for a missing path. Both take the one branch
  of the \<open>is_file\<close> guard of \<open>main\<close>: the run on a directory and the run on a path that
  names nothing end with the same exit code, the same log and the same file-system calls.
\<close>

theorem directory_indistinguishable_counterexample:
  "fst (main (fragment_env Posix) (command_line ''in.txt'' ''out.txt'' ''NFC'')
          (initial_world [''in.txt'' \<mapsto> Directory]))
     = fst (main (fragment_env Posix) (command_line ''in.txt'' ''out.txt'' ''NFC'')
          (initial_world Map.empty))
   \<and> logged (snd (main (fragment_env Posix) (command_line ''in.txt'' ''out.txt'' ''NFC'')
          (initial_world [''in.txt'' \<mapsto> Directory])))
     = logged (snd (main (fragment_env Posix) (command_line ''in.txt'' ''out.txt'' ''NFC'')
          (initial_world Map.empty)))
   \<and> syscalls (snd (main (fragment_env Posix) (command_line ''in.txt'' ''out.txt'' ''NFC'')
          (initial_world [''in.txt'' \<mapsto> Directory])))
     = syscalls (snd (main (fragment_env Posix) (command_line ''in.txt'' ''out.txt'' ''NFC'')
          (initial_world Map.empty)))"
  by (simp add: main_def parse_nfc path_is_file_def initial_world_def sys_def logging_def)

text \<open>
  C5, amended: for an input path that is a directory, the run ends with exit code 1 after
  logging that the input is not a valid file, the files unchanged and nothing opened; the
  exit code, the log and the file-system calls are those of the run in which the path
  names nothing, so the run does not tell the two apart.
\<close>

theorem directory_input_not_a_valid_file:
  assumes "parse_args c = Inr a"
    and "files w (resolve w (input_file a)) = Some Directory"
  shows "fst (main e c w) = 1
       \<and> files (snd (main e c w)) = files w
       \<and> logged (snd (main e c w)) =
           logged w @ [(ERROR, Input_file_is_not_a_valid_file (input_file a))]
       \<and> syscalls (snd (main e c w)) = syscalls w @ [Stat (input_file a)]
       \<and> fst (main e c (w\<lparr>files := (files w)(resolve w (input_file a) := None)\<rparr>))
           = fst (main e c w)
       \<and> logged (snd (main e c (w\<lparr>files := (files w)(resolve w (input_file a) := None)\<rparr>)))
           = logged (snd (main e c w))
       \<and> syscalls (snd (main e c (w\<lparr>files := (files w)(resolve w (input_file a) := None)\<rparr>)))
           = syscalls (snd (main e c w))"
proof -
  let ?m = "w\<lparr>files := (files w)(resolve w (input_file a) := None)\<rparr>"
  have 1: "\<forall>bs. files w (resolve w (input_file a)) \<noteq> Some (RegFile bs)"
    using assms(2) by simp
  have 2: "\<forall>bs. files ?m (resolve ?m (input_file a)) \<noteq> Some (RegFile bs)" by simp
  show ?thesis
    using main_not_file [OF assms(1) 1, of e] main_not_file [OF assms(1) 2, of e] by simp
qed

theorem directory_input_not_a_valid_file_witness:
  "parse_args (command_line ''in.txt'' ''out.txt'' ''NFC'') =
     Inr \<lparr>input_file = ''in.txt'', output_file = ''out.txt'', form = ''NFC'', log_level = ''INFO''\<rparr>
   \<and> files (initial_world [''in.txt'' \<mapsto> Directory]) ''in.txt'' = Some Directory
   \<and> fst (main (fragment_env Posix) (command_line ''in.txt'' ''out.txt'' ''NFC'')
           (initial_world [''in.txt'' \<mapsto> Directory])) = 1
   \<and> logged (snd (main (fragment_env Posix) (command_line ''in.txt'' ''out.txt'' ''NFC'')
           (initial_world [''in.txt'' \<mapsto> Directory])))
        = [(ERROR, Input_file_is_not_a_valid_file ''in.txt'')]"
proof -
  have h2: "files (initial_world [''in.txt'' \<mapsto> Directory])
              (resolve (initial_world [''in.txt'' \<mapsto> Directory])
                 (input_file \<lparr>input_file = ''in.txt'', output_file = ''out.txt'', form = ''NFC'',
                    log_level = ''INFO''\<rparr>)) = Some Directory"
    by simp
  show ?thesis
    using directory_input_not_a_valid_file [OF parse_nfc h2, of "fragment_env Posix"]
    by (simp add: parse_nfc initial_world_def)
qed

subsection \<open>C6: idempotence\<close>

text \<open>
  C6: for valid UTF-8 input and any of the four forms, a first run and a second run with
  the same form on the first run's output both succeed, and the second output is
  byte-identical to the first. The normalization routine is the parameter of the model;
  what the proof takes from it is what the Unicode standard gives
  \<open>unicodedata.normalize\<close>: it maps scalar values to scalar values, introduces no
  carriage return, and is idempotent.
\<close>

theorem normalization_idempotent:
  assumes p1: "parse_args c1 = Inr a1" and p2: "parse_args c2 = Inr a2"
    and f: "form a2 = form a1"
    and chain: "input_file a2 = output_file a1"
    and i: "files w (resolve w (input_file a1)) = Some (RegFile bs)"
    and d: "utf8_decode bs = Some s"
    and o1: "files w (resolve w (output_file a1)) \<noteq> Some Directory"
    and o2: "files w (resolve w (output_file a2)) \<noteq> Some Directory"
    and sc: "\<forall>t. list_all scalar t \<longrightarrow> list_all scalar (unicodedata_normalize e (form a1) t)"
    and nc: "\<forall>t. cr \<notin> set t \<longrightarrow> cr \<notin> set (unicodedata_normalize e (form a1) t)"
    and idem: "\<forall>t. list_all scalar t \<longrightarrow>
        unicodedata_normalize e (form a1) (unicodedata_normalize e (form a1) t)
          = unicodedata_normalize e (form a1) t"
  shows "fst (main e c1 w) = 0
       \<and> fst (main e c2 (snd (main e c1 w))) = 0
       \<and> files (snd (main e c2 (snd (main e c1 w)))) (resolve w (output_file a2))
           = files (snd (main e c1 w)) (resolve w (output_file a1))"
proof -
  let ?w' = "snd (main e c1 w)"
  from written_output_total [OF d sc] obtain ob where ob: "written_output e (form a1) bs = Some ob"
    by blast
  note r1 = main_regular [OF p1 i o1 ob]
  have fs1: "files ?w' = (files w)(resolve w (output_file a1) \<mapsto> RegFile ob)" using r1 by simp
  have rs: "resolve ?w' = resolve w" using r1 by simp
  have i2: "files ?w' (resolve ?w' (input_file a2)) = Some (RegFile ob)" using fs1 rs chain by simp
  have o2': "files ?w' (resolve ?w' (output_file a2)) \<noteq> Some Directory" using fs1 rs o2 by simp
  have ob2: "written_output e (form a2) ob = Some ob"
    using written_output_fixed [OF d ob nc idem] f by simp
  note r2 = main_regular [OF p2 i2 o2' ob2]
  show ?thesis using r1 r2 fs1 rs by simp
qed

theorem normalization_idempotent_witness:
  "fst (main (fragment_env Windows) (command_line ''in.txt'' ''out.txt'' ''NFC'')
          (initial_world [''in.txt'' \<mapsto> RegFile [0x65, 0xCC, 0x81, 0x0A]])) = 0
   \<and> fst (main (fragment_env Windows) (command_line ''out.txt'' ''again.txt'' ''NFC'')
          (snd (main (fragment_env Windows) (command_line ''in.txt'' ''out.txt'' ''NFC'')
             (initial_world [''in.txt'' \<mapsto> RegFile [0x65, 0xCC, 0x81, 0x0A]])))) = 0
   \<and> files (snd (main (fragment_env Windows) (command_line ''out.txt'' ''again.txt'' ''NFC'')
          (snd (main (fragment_env Windows) (command_line ''in.txt'' ''out.txt'' ''NFC'')
             (initial_world [''in.txt'' \<mapsto> RegFile [0x65, 0xCC, 0x81, 0x0A]]))))) ''again.txt''
     = files (snd (main (fragment_env Windows) (command_line ''in.txt'' ''out.txt'' ''NFC'')
             (initial_world [''in.txt'' \<mapsto> RegFile [0x65, 0xCC, 0x81, 0x0A]]))) ''out.txt''"
proof -
  let ?a1 = "\<lparr>input_file = ''in.txt'', output_file = ''out.txt'', form = ''NFC'', log_level = ''INFO''\<rparr>"
  let ?a2 = "\<lparr>input_file = ''out.txt'', output_file = ''again.txt'', form = ''NFC'', log_level = ''INFO''\<rparr>"
  let ?w = "initial_world [''in.txt'' \<mapsto> RegFile [0x65, 0xCC, 0x81, 0x0A]]"
  have p1: "parse_args (command_line ''in.txt'' ''out.txt'' ''NFC'') = Inr ?a1"
    by (simp add: parse_args_command_line)
  have p2: "parse_args (command_line ''out.txt'' ''again.txt'' ''NFC'') = Inr ?a2"
    by (simp add: parse_args_command_line)
  have f: "form ?a2 = form ?a1" by simp
  have chain: "input_file ?a2 = output_file ?a1" by simp
  have i: "files ?w (resolve ?w (input_file ?a1)) = Some (RegFile [0x65, 0xCC, 0x81, 0x0A])"
    by (simp add: initial_world_def)
  have d: "utf8_decode [0x65, 0xCC, 0x81, 0x0A] = Some [0x65, 0x301, 0x0A]"
    by (simp add: continuation_def)
  have o1: "files ?w (resolve ?w (output_file ?a1)) \<noteq> Some Directory"
    by (simp add: initial_world_def)
  have o2: "files ?w (resolve ?w (output_file ?a2)) \<noteq> Some Directory"
    by (simp add: initial_world_def)
  have sc: "\<forall>t. list_all scalar t \<longrightarrow>
      list_all scalar (unicodedata_normalize (fragment_env Windows) (form ?a1) t)"
    by (simp add: fragment_normalize_scalar)
  have nc: "\<forall>t. cr \<notin> set t \<longrightarrow>
      cr \<notin> set (unicodedata_normalize (fragment_env Windows) (form ?a1) t)"
    by (simp add: fragment_normalize_cr)
  have idem: "\<forall>t. list_all scalar t \<longrightarrow>
      unicodedata_normalize (fragment_env Windows) (form ?a1)
        (unicodedata_normalize (fragment_env Windows) (form ?a1) t)
      = unicodedata_normalize (fragment_env Windows) (form ?a1) t"
    by (simp add: fragment_normalize_idem)
  show ?thesis
    using normalization_idempotent [OF p1 p2 f chain i d o1 o2 sc nc idem] by simp
qed

subsection \<open>C7: determinism\<close>

text \<open>
  C7: two runs with the same form on input files of identical, valid UTF-8 content end
  with the same exit code and leave identical bytes at their output paths, whatever the
  paths, the other files and the log level of each run.
\<close>

theorem deterministic_output:
  assumes p1: "parse_args c1 = Inr a1" and p2: "parse_args c2 = Inr a2"
    and f: "form a1 = form a2"
    and i1: "files w1 (resolve w1 (input_file a1)) = Some (RegFile bs)"
    and i2: "files w2 (resolve w2 (input_file a2)) = Some (RegFile bs)"
    and d: "utf8_decode bs = Some s"
    and o1: "files w1 (resolve w1 (output_file a1)) \<noteq> Some Directory"
    and o2: "files w2 (resolve w2 (output_file a2)) \<noteq> Some Directory"
  shows "fst (main e c1 w1) = fst (main e c2 w2)
       \<and> files (snd (main e c1 w1)) (resolve w1 (output_file a1))
           = files (snd (main e c2 w2)) (resolve w2 (output_file a2))"
proof (cases "written_output e (form a1) bs")
  case None
  then have n2: "written_output e (form a2) bs = None" using f by simp
  show ?thesis
    using main_unencodable [OF p1 i1 o1 d None] main_unencodable [OF p2 i2 o2 d n2] by simp
next
  case (Some ob)
  then have s2: "written_output e (form a2) bs = Some ob" using f by simp
  show ?thesis
    using main_regular [OF p1 i1 o1 Some] main_regular [OF p2 i2 o2 s2] by simp
qed

theorem deterministic_output_witness:
  "fst (main (fragment_env Posix) (command_line ''a.txt'' ''b.txt'' ''NFD'')
          (initial_world [''a.txt'' \<mapsto> RegFile [0xC3, 0xA9]]))
     = fst (main (fragment_env Posix) (command_line ''x.txt'' ''y.txt'' ''NFD'')
          (initial_world [''x.txt'' \<mapsto> RegFile [0xC3, 0xA9], ''y.txt'' \<mapsto> RegFile [0x00]]))
   \<and> files (snd (main (fragment_env Posix) (command_line ''a.txt'' ''b.txt'' ''NFD'')
          (initial_world [''a.txt'' \<mapsto> RegFile [0xC3, 0xA9]]))) ''b.txt''
     = files (snd (main (fragment_env Posix) (command_line ''x.txt'' ''y.txt'' ''NFD'')
          (initial_world [''x.txt'' \<mapsto> RegFile [0xC3, 0xA9], ''y.txt'' \<mapsto> RegFile [0x00]])))
         ''y.txt''"
proof -
  let ?a1 = "\<lparr>input_file = ''a.txt'', output_file = ''b.txt'', form = ''NFD'', log_level = ''INFO''\<rparr>"
  let ?a2 = "\<lparr>input_file = ''x.txt'', output_file = ''y.txt'', form = ''NFD'', log_level = ''INFO''\<rparr>"
  have p1: "parse_args (command_line ''a.txt'' ''b.txt'' ''NFD'') = Inr ?a1"
    by (simp add: parse_args_command_line)
  have p2: "parse_args (command_line ''x.txt'' ''y.txt'' ''NFD'') = Inr ?a2"
    by (simp add: parse_args_command_line)
  have f: "form ?a1 = form ?a2" by simp
  have i1: "files (initial_world [''a.txt'' \<mapsto> RegFile [0xC3, 0xA9]]) (resolve (initial_world [''a.txt'' \<mapsto> RegFile [0xC3, 0xA9]]) (input_file ?a1))
      = Some (RegFile [0xC3, 0xA9])"
    by (simp add: initial_world_def)
  have i2: "files (initial_world [''x.txt'' \<mapsto> RegFile [0xC3, 0xA9], ''y.txt'' \<mapsto> RegFile [0x00]])
      (resolve (initial_world [''x.txt'' \<mapsto> RegFile [0xC3, 0xA9], ''y.txt'' \<mapsto> RegFile [0x00]]) (input_file ?a2)) = Some (RegFile [0xC3, 0xA9])"
    by (simp add: initial_world_def)
  have d: "utf8_decode [0xC3, 0xA9] = Some [0xE9]"
    by (simp add: continuation_def)
  have o1: "files (initial_world [''a.txt'' \<mapsto> RegFile [0xC3, 0xA9]]) (resolve (initial_world [''a.txt'' \<mapsto> RegFile [0xC3, 0xA9]]) (output_file ?a1))
      \<noteq> Some Directory"
    by (simp add: initial_world_def)
  have o2: "files (initial_world [''x.txt'' \<mapsto> RegFile [0xC3, 0xA9], ''y.txt'' \<mapsto> RegFile [0x00]])
      (resolve (initial_world [''x.txt'' \<mapsto> RegFile [0xC3, 0xA9], ''y.txt'' \<mapsto> RegFile [0x00]]) (output_file ?a2)) \<noteq> Some Directory"
    by (simp add: initial_world_def)
  show ?thesis
    using deterministic_output [OF p1 p2 f i1 i2 d o1 o2, of "fragment_env Posix"] by simp
qed

subsection \<open>C8: the scenario of the combining acute accent\<close>

text \<open>
  C8: the input file holds U+0063 U+0061 U+0066 U+0065 U+0301. With the normalization
  routine composing this text to U+0063 U+0061 U+0066 U+00E9 under NFC and leaving it as
  it is under NFD, the run with NFC ends with exit code 0 and writes the precomposed text,
  and the run with NFD ends with exit code 0 and writes bytes identical to the input.
\<close>

theorem cafe_scenario:
  assumes nfc: "unicodedata_normalize e ''NFC'' [0x63, 0x61, 0x66, 0x65, 0x301]
                  = [0x63, 0x61, 0x66, 0xE9]"
    and nfd: "unicodedata_normalize e ''NFD'' [0x63, 0x61, 0x66, 0x65, 0x301]
                  = [0x63, 0x61, 0x66, 0x65, 0x301]"
    and i: "files w (resolve w i) = Some (RegFile [0x63, 0x61, 0x66, 0x65, 0xCC, 0x81])"
    and o: "files w (resolve w out) \<noteq> Some Directory"
  shows "utf8_decode [0x63, 0x61, 0x66, 0x65, 0xCC, 0x81] = Some [0x63, 0x61, 0x66, 0x65, 0x301]
       \<and> fst (main e (command_line i out ''NFC'') w) = 0
       \<and> files (snd (main e (command_line i out ''NFC'') w)) (resolve w out)
           = Some (RegFile [0x63, 0x61, 0x66, 0xC3, 0xA9])
       \<and> utf8_decode [0x63, 0x61, 0x66, 0xC3, 0xA9] = Some [0x63, 0x61, 0x66, 0xE9]
       \<and> fst (main e (command_line i out ''NFD'') w) = 0
       \<and> files (snd (main e (command_line i out ''NFD'') w)) (resolve w out)
           = Some (RegFile [0x63, 0x61, 0x66, 0x65, 0xCC, 0x81])"
proof -
  let ?c = "\<lambda>f. \<lparr>input_file = i, output_file = out, form = f, log_level = ''INFO''\<rparr>"
  have d: "utf8_decode [0x63, 0x61, 0x66, 0x65, 0xCC, 0x81] = Some [0x63, 0x61, 0x66, 0x65, 0x301]"
    by (simp add: continuation_def)
  have d': "utf8_decode [0x63, 0x61, 0x66, 0xC3, 0xA9] = Some [0x63, 0x61, 0x66, 0xE9]"
    by (simp add: continuation_def)
  have u: "universal_newlines [0x63, 0x61, 0x66, 0x65, 0x301] = [0x63, 0x61, 0x66, 0x65, 0x301]"
    by (simp add: cr_def)
  have wnc: "write_newlines (os_name e) [0x63, 0x61, 0x66, 0xE9] = [0x63, 0x61, 0x66, 0xE9]"
    by (simp add: write_newlines_def lf_def)
  have wnd: "write_newlines (os_name e) [0x63, 0x61, 0x66, 0x65, 0x301]
      = [0x63, 0x61, 0x66, 0x65, 0x301]"
    by (simp add: write_newlines_def lf_def)
  have enc: "utf8_encode [0x63, 0x61, 0x66, 0xE9] = Some [0x63, 0x61, 0x66, 0xC3, 0xA9]"
    by (simp add: scalar_def utf8_encode_char_def)
  have end3: "utf8_encode [0x63, 0x61, 0x66, 0x65, 0x301]
      = Some [0x63, 0x61, 0x66, 0x65, 0xCC, 0x81]"
    by (simp add: scalar_def utf8_encode_char_def)
  have wc: "written_output e ''NFC'' [0x63, 0x61, 0x66, 0x65, 0xCC, 0x81]
      = Some [0x63, 0x61, 0x66, 0xC3, 0xA9]"
    by (simp only: written_output_def d option.case u nfc wnc enc)
  have wd: "written_output e ''NFD'' [0x63, 0x61, 0x66, 0x65, 0xCC, 0x81]
      = Some [0x63, 0x61, 0x66, 0x65, 0xCC, 0x81]"
    by (simp only: written_output_def d option.case u nfd wnd end3)
  have pc: "parse_args (command_line i out ''NFC'') = Inr (?c ''NFC'')"
    by (simp add: parse_args_command_line)
  have pd: "parse_args (command_line i out ''NFD'') = Inr (?c ''NFD'')"
    by (simp add: parse_args_command_line)
  have ic: "files w (resolve w (input_file (?c ''NFC''))) = Some (RegFile [0x63, 0x61, 0x66, 0x65, 0xCC, 0x81])"
    and oc: "files w (resolve w (output_file (?c ''NFC''))) \<noteq> Some Directory"
    and ec: "written_output e (form (?c ''NFC'')) [0x63, 0x61, 0x66, 0x65, 0xCC, 0x81]
      = Some [0x63, 0x61, 0x66, 0xC3, 0xA9]"
    using i o wc by simp_all
  have id: "files w (resolve w (input_file (?c ''NFD''))) = Some (RegFile [0x63, 0x61, 0x66, 0x65, 0xCC, 0x81])"
    and od: "files w (resolve w (output_file (?c ''NFD''))) \<noteq> Some Directory"
    and ed: "written_output e (form (?c ''NFD'')) [0x63, 0x61, 0x66, 0x65, 0xCC, 0x81]
      = Some [0x63, 0x61, 0x66, 0x65, 0xCC, 0x81]"
    using i o wd by simp_all
  show ?thesis
    using main_regular [OF pc ic oc ec] main_regular [OF pd id od ed] d d' by simp
qed

theorem cafe_scenario_witness:
  "fst (main (fragment_env Posix) (command_line ''input.txt'' ''output.txt'' ''NFC'')
          (initial_world [''input.txt'' \<mapsto> RegFile [0x63, 0x61, 0x66, 0x65, 0xCC, 0x81]])) = 0
   \<and> files (snd (main (fragment_env Posix) (command_line ''input.txt'' ''output.txt'' ''NFC'')
          (initial_world [''input.txt'' \<mapsto> RegFile [0x63, 0x61, 0x66, 0x65, 0xCC, 0x81]])))
        ''output.txt'' = Some (RegFile [0x63, 0x61, 0x66, 0xC3, 0xA9])
   \<and> fst (main (fragment_env Posix) (command_line ''input.txt'' ''output.txt'' ''NFD'')
          (initial_world [''input.txt'' \<mapsto> RegFile [0x63, 0x61, 0x66, 0x65, 0xCC, 0x81]])) = 0
   \<and> files (snd (main (fragment_env Posix) (command_line ''input.txt'' ''output.txt'' ''NFD'')
          (initial_world [''input.txt'' \<mapsto> RegFile [0x63, 0x61, 0x66, 0x65, 0xCC, 0x81]])))
        ''output.txt'' = Some (RegFile [0x63, 0x61, 0x66, 0x65, 0xCC, 0x81])"
proof -
  have nfc: "unicodedata_normalize (fragment_env Posix) ''NFC'' [0x63, 0x61, 0x66, 0x65, 0x301]
                  = [0x63, 0x61, 0x66, 0xE9]"
    by (simp add: fragment_normalize_def)
  have nfd: "unicodedata_normalize (fragment_env Posix) ''NFD'' [0x63, 0x61, 0x66, 0x65, 0x301]
                  = [0x63, 0x61, 0x66, 0x65, 0x301]"
    by (simp add: fragment_normalize_def)
  have i: "files (initial_world [''input.txt'' \<mapsto> RegFile [0x63, 0x61, 0x66, 0x65, 0xCC, 0x81]])
      (resolve (initial_world [''input.txt'' \<mapsto> RegFile [0x63, 0x61, 0x66, 0x65, 0xCC, 0x81]])
         ''input.txt'') = Some (RegFile [0x63, 0x61, 0x66, 0x65, 0xCC, 0x81])"
    by (simp add: initial_world_def)
  have o: "files (initial_world [''input.txt'' \<mapsto> RegFile [0x63, 0x61, 0x66, 0x65, 0xCC, 0x81]])
      (resolve (initial_world [''input.txt'' \<mapsto> RegFile [0x63, 0x61, 0x66, 0x65, 0xCC, 0x81]])
         ''output.txt'') \<noteq> Some Directory"
    by (simp add: initial_world_def)
  show ?thesis
    using cafe_scenario [OF nfc nfd i o] by simp
qed

subsection \<open>C9: output path equal to input path\<close>

text \<open>
  C9: when the output path is the input path, an existing regular file of valid UTF-8
  content and a valid form, the run succeeds and the file holds its normalized content
  afterwards; the file is opened for reading, read whole, and only then opened for
  writing. The normalization routine is taken to map scalar values to scalar values.
\<close>

theorem in_place_normalization:
  assumes p: "parse_args c = Inr a"
    and same: "output_file a = input_file a"
    and i: "files w (resolve w (input_file a)) = Some (RegFile bs)"
    and d: "utf8_decode bs = Some s"
    and n: "\<forall>t. list_all scalar t \<longrightarrow> list_all scalar (unicodedata_normalize e (form a) t)"
  shows "fst (main e c w) = 0
       \<and> (\<exists>ob. written_output e (form a) bs = Some ob
              \<and> files (snd (main e c w)) = (files w)(resolve w (input_file a) \<mapsto> RegFile ob))
       \<and> syscalls (snd (main e c w)) =
           syscalls w @ [Stat (input_file a), Stat (input_file a),
                         OpenRead (input_file a), OpenWrite (input_file a)]"
proof -
  from written_output_total [OF d n] obtain ob where ob: "written_output e (form a) bs = Some ob"
    by blast
  have o: "files w (resolve w (output_file a)) \<noteq> Some Directory" using i same by simp
  from main_regular [OF p i o ob] ob same show ?thesis by simp
qed

theorem in_place_normalization_witness:
  "fst (main (fragment_env Posix) (command_line ''in.txt'' ''in.txt'' ''NFC'')
          (initial_world [''in.txt'' \<mapsto> RegFile [0x65, 0xCC, 0x81]])) = 0
   \<and> files (snd (main (fragment_env Posix) (command_line ''in.txt'' ''in.txt'' ''NFC'')
          (initial_world [''in.txt'' \<mapsto> RegFile [0x65, 0xCC, 0x81]]))) ''in.txt''
       = Some (RegFile [0xC3, 0xA9])
   \<and> syscalls (snd (main (fragment_env Posix) (command_line ''in.txt'' ''in.txt'' ''NFC'')
          (initial_world [''in.txt'' \<mapsto> RegFile [0x65, 0xCC, 0x81]])))
       = [Stat ''in.txt'', Stat ''in.txt'', OpenRead ''in.txt'', OpenWrite ''in.txt'']"
proof -
  let ?a = "\<lparr>input_file = ''in.txt'', output_file = ''in.txt'', form = ''NFC'', log_level = ''INFO''\<rparr>"
  have p: "parse_args (command_line ''in.txt'' ''in.txt'' ''NFC'') = Inr ?a"
    by (simp add: parse_args_def command_line_def)
  have same: "output_file ?a = input_file ?a" by simp
  have i: "files (initial_world [''in.txt'' \<mapsto> RegFile [0x65, 0xCC, 0x81]]) (resolve (initial_world [''in.txt'' \<mapsto> RegFile [0x65, 0xCC, 0x81]]) (input_file ?a))
      = Some (RegFile [0x65, 0xCC, 0x81])"
    by (simp add: initial_world_def)
  have d: "utf8_decode [0x65, 0xCC, 0x81] = Some [0x65, 0x301]"
    by (simp add: continuation_def)
  have n: "\<forall>t. list_all scalar t \<longrightarrow>
      list_all scalar (unicodedata_normalize (fragment_env Posix) (form ?a) t)"
    by (simp add: fragment_normalize_scalar)
  show ?thesis
    using in_place_normalization [OF p same i d n] written_output_e_acute
    by (simp add: initial_world_def)
qed

subsection \<open>C10: the input file is not modified\<close>

text \<open>
  C10, as the specification states it: when the output path differs from the input path,
  the input file is not modified. Two different path strings can name one file: with the
  input \<open>in.txt\<close> and the output \<open>./in.txt\<close> the paths differ and the run overwrites
  the input file.
\<close>

theorem alias_overwrites_input_counterexample:
  "cli_output_file (command_line ''in.txt'' ''./in.txt'' ''NFC'')
     \<noteq> cli_input_file (command_line ''in.txt'' ''./in.txt'' ''NFC'')
   \<and> files (aliased_world [''in.txt'' \<mapsto> RegFile [0x65, 0xCC, 0x81]])
         (resolve (aliased_world [''in.txt'' \<mapsto> RegFile [0x65, 0xCC, 0x81]]) ''in.txt'')
       = Some (RegFile [0x65, 0xCC, 0x81])
   \<and> fst (main (fragment_env Posix) (command_line ''in.txt'' ''./in.txt'' ''NFC'')
         (aliased_world [''in.txt'' \<mapsto> RegFile [0x65, 0xCC, 0x81]])) = 0
   \<and> files (snd (main (fragment_env Posix) (command_line ''in.txt'' ''./in.txt'' ''NFC'')
         (aliased_world [''in.txt'' \<mapsto> RegFile [0x65, 0xCC, 0x81]])))
         (resolve (aliased_world [''in.txt'' \<mapsto> RegFile [0x65, 0xCC, 0x81]]) ''in.txt'')
       = Some (RegFile [0xC3, 0xA9])"
proof -
  let ?a = "\<lparr>input_file = ''in.txt'', output_file = ''./in.txt'', form = ''NFC'',
             log_level = ''INFO''\<rparr>"
  let ?w = "aliased_world [''in.txt'' \<mapsto> RegFile [0x65, 0xCC, 0x81]]"
  have p: "parse_args (command_line ''in.txt'' ''./in.txt'' ''NFC'') = Inr ?a"
    by (simp add: parse_args_command_line)
  have i: "files ?w (resolve ?w (input_file ?a)) = Some (RegFile [0x65, 0xCC, 0x81])"
    by (simp add: aliased_world_def dot_slash_def)
  have o: "files ?w (resolve ?w (output_file ?a)) \<noteq> Some Directory"
    by (simp add: aliased_world_def dot_slash_def)
  have en: "written_output (fragment_env Posix) (form ?a) [0x65, 0xCC, 0x81] = Some [0xC3, 0xA9]"
    by (simp add: written_output_e_acute)
  show ?thesis
    using main_regular [OF p i o en]
    by (simp add: aliased_world_def dot_slash_def command_line_def)
qed

text \<open>
  C10, amended: when the output path and the input path name different files, the input
  file after the run is what it was before, whatever the outcome of the run, and every
  file the run opens for writing is the output path.
\<close>

theorem input_kept_when_files_differ:
  assumes "resolve w (cli_output_file c) \<noteq> resolve w (cli_input_file c)"
  shows "files (snd (main e c w)) (resolve w (cli_input_file c))
           = files w (resolve w (cli_input_file c))
       \<and> (\<forall>p. OpenWrite p \<in> set (syscalls (snd (main e c w)))
              \<longrightarrow> OpenWrite p \<in> set (syscalls w) \<or> p = cli_output_file c)"
proof -
  from assms have "resolve w (cli_input_file c) \<noteq> resolve w (cli_output_file c)" by simp
  then have "files (snd (main e c w)) (resolve w (cli_input_file c))
           = files w (resolve w (cli_input_file c))"
    by (rule main_frame)
  then show ?thesis using main_writes [of _ e c w] by blast
qed

theorem input_kept_when_files_differ_witness:
  "resolve (aliased_world [''in.txt'' \<mapsto> RegFile [0x65, 0xCC, 0x81]])
       (cli_output_file (command_line ''./in.txt'' ''out.txt'' ''NFC''))
     \<noteq> resolve (aliased_world [''in.txt'' \<mapsto> RegFile [0x65, 0xCC, 0x81]])
       (cli_input_file (command_line ''./in.txt'' ''out.txt'' ''NFC''))
   \<and> files (snd (main (fragment_env Posix) (command_line ''./in.txt'' ''out.txt'' ''NFC'')
         (aliased_world [''in.txt'' \<mapsto> RegFile [0x65, 0xCC, 0x81]]))) ''in.txt''
       = Some (RegFile [0x65, 0xCC, 0x81])"
proof -
  have h: "resolve (aliased_world [''in.txt'' \<mapsto> RegFile [0x65, 0xCC, 0x81]])
       (cli_output_file (command_line ''./in.txt'' ''out.txt'' ''NFC''))
     \<noteq> resolve (aliased_world [''in.txt'' \<mapsto> RegFile [0x65, 0xCC, 0x81]])
       (cli_input_file (command_line ''./in.txt'' ''out.txt'' ''NFC''))"
    by (simp add: aliased_world_def dot_slash_def command_line_def)
  show ?thesis
    using input_kept_when_files_differ [OF h, of "fragment_env Posix"] h
    by (simp add: aliased_world_def dot_slash_def command_line_def)
qed

end
